theory Spec2Isabelle
  imports Complex_Main "HOL-Library.AList" "HOL-Library.Char_ord" "HOL-Library.List_Lexorder"
    "HOL-Library.Multiset"
begin

section \<open>Trace counters of Holistic Trace Analysis\<close>

text \<open>
  A shallow embedding of \<^verbatim>\<open>hta/analyzers/trace_counters.py\<close>: the class
  \<^verbatim>\<open>TraceCounters\<close> with its two per-rank builders (queue length per CUDA stream,
  memory bandwidth per memory-copy kind), the per-rank dictionaries built from them and
  the memory bandwidth summary.

  The pandas operations the source calls are written out on lists of rows:
  \<^item> a DataFrame is the list of its rows in frame order, each row a record of its columns;
  \<^item> a column that a left join may leave empty (NaN) is an \<open>option\<close>;
  \<^item> \<^verbatim>\<open>sort_values(by="ts")\<close> is a stable sort by the \<^verbatim>\<open>ts\<close> column. pandas does not
    promise an order among rows of equal \<^verbatim>\<open>ts\<close>; the stable order is the one the
    specification assumes;
  \<^item> \<^verbatim>\<open>groupby(key)\<close> visits the distinct keys in ascending order, leaves out rows whose
    key is NaN, and keeps the frame order inside each group;
  \<^item> timestamps, durations and ids are unbounded integers; the bandwidth column, a
    float in the source, is a real number, so rounding is not part of the model.
\<close>

subsection \<open>The event table and the trace\<close>

record event =
  index :: int
  ts :: int
  dur :: int
  pid :: int
  tid :: int
  stream :: int
  name :: int
  correlation :: int
  index_correlation :: int
  memory_bw_gbps :: real

text \<open>
  The class \<^verbatim>\<open>Trace\<close> is not part of this file; the analyzers use three things of it,
  which are the fields here: \<^verbatim>\<open>t.get_trace(rank)\<close>, the event table of a rank;
  \<^verbatim>\<open>t.symbol_table.get_sym_id_map()\<close>, from event names to name ids; and
  \<^verbatim>\<open>t.symbol_table.get_sym_table()\<close>, from name ids back to names.
\<close>

record Trace =
  get_trace :: "int \<Rightarrow> event list"
  get_sym_id_map :: "string \<rightharpoonup> int"
  get_sym_table :: "int \<rightharpoonup> string"

text \<open>A returned DataFrame: the names of its columns and its rows.\<close>

record 'r dataframe =
  columns :: "string list"
  rows :: "'r list"

subsection \<open>Shared pandas operations\<close>

definition sort_values :: "('r \<Rightarrow> int) \<Rightarrow> 'r list \<Rightarrow> 'r list" where
  "sort_values by df = sort_key by df"

fun cumsum_from :: "'a::monoid_add \<Rightarrow> 'a list \<Rightarrow> 'a list" where
  "cumsum_from acc [] = []"
| "cumsum_from acc (x # xs) = (acc + x) # cumsum_from (acc + x) xs"

definition cumsum :: "'a::monoid_add list \<Rightarrow> 'a list" where
  "cumsum xs = cumsum_from 0 xs"

text \<open>The group keys of \<^verbatim>\<open>groupby\<close>: the distinct keys present, ascending, NaN left out.\<close>

definition group_keys :: "('r \<Rightarrow> 'k::linorder option) \<Rightarrow> 'r list \<Rightarrow> 'k list" where
  "group_keys key df = sort (remdups (List.map_filter key df))"

definition get_group :: "('r \<Rightarrow> 'k option) \<Rightarrow> 'r list \<Rightarrow> 'k \<Rightarrow> 'r list" where
  "get_group key df k = filter (\<lambda>r. key r = Some k) df"

subsection \<open>Queue length per stream\<close>

text \<open>
  A row of \<^verbatim>\<open>merged_df\<close>. After the join the columns \<^verbatim>\<open>stream\<close>, \<^verbatim>\<open>pid\<close> and
  \<^verbatim>\<open>tid\<close> of a runtime call are those of the GPU event, or NaN. The columns
  \<^verbatim>\<open>dur\<close>, \<^verbatim>\<open>name\<close> and \<^verbatim>\<open>index_correlation\<close> are carried along by pandas and
  never read again; they are left out.
\<close>

record delta =
  q_index :: int
  q_ts :: int
  q_correlation :: int
  q_stream :: "int option"
  q_pid :: "int option"
  q_tid :: "int option"
  queue :: int

record ql_row =
  ql_index :: int
  ql_ts :: int
  ql_pid :: "int option"
  ql_tid :: "int option"
  ql_stream :: "int option"
  queue_length :: int

text \<open>
  The query of lines 54 to 58. An id that \<^verbatim>\<open>sym_index.get\<close> did not find is
  \<^verbatim>\<open>None\<close>, and no name equals it.
\<close>

definition is_runtime_call :: "Trace \<Rightarrow> event \<Rightarrow> bool" where
  "is_runtime_call t e \<longleftrightarrow>
     (let sym_index = get_sym_id_map t;
          cudaLaunchKernel_id = sym_index ''cudaLaunchKernel'';
          cudaMemcpyAsync_id = sym_index ''cudaMemcpyAsync'';
          cudaMemsetAsync_id = sym_index ''cudaMemsetAsync''
      in (Some (name e) = cudaMemsetAsync_id \<or> Some (name e) = cudaMemcpyAsync_id \<or>
          Some (name e) = cudaLaunchKernel_id)
         \<and> index_correlation e > 0)"

definition runtime_calls :: "Trace \<Rightarrow> int \<Rightarrow> event list" where
  "runtime_calls t rank = filter (is_runtime_call t) (get_trace t rank)"

definition gpu_kernels :: "Trace \<Rightarrow> int \<Rightarrow> event list" where
  "gpu_kernels t rank = filter (\<lambda>e. stream e \<noteq> -1) (get_trace t rank)"

definition gpu_delta :: "event \<Rightarrow> delta" where
  "gpu_delta g = \<lparr>q_index = index g, q_ts = ts g, q_correlation = correlation g,
     q_stream = Some (stream g), q_pid = Some (pid g), q_tid = Some (tid g), queue = -1\<rparr>"

text \<open>
  \<^verbatim>\<open>runtime_calls.join(gpu_kernels[...].set_index("correlation"), on="correlation")\<close>,
  a left join, for one row of the left frame: one row for each GPU event of the same
  correlation id in the order of the right frame, and one row of NaN when there is none.
\<close>

definition join_row :: "event list \<Rightarrow> event \<Rightarrow> delta list" where
  "join_row gs r =
     (let ms = filter (\<lambda>g. correlation g = correlation r) gs
      in if ms = []
         then [\<lparr>q_index = index r, q_ts = ts r, q_correlation = correlation r,
                 q_stream = None, q_pid = None, q_tid = None, queue = 1\<rparr>]
         else map (\<lambda>g. \<lparr>q_index = index r, q_ts = ts r, q_correlation = correlation r,
                 q_stream = Some (stream g), q_pid = Some (pid g), q_tid = Some (tid g),
                 queue = 1\<rparr>) ms)"

definition joined_calls :: "Trace \<Rightarrow> int \<Rightarrow> delta list" where
  "joined_calls t rank = concat (map (join_row (gpu_kernels t rank)) (runtime_calls t rank))"

definition merged_df :: "Trace \<Rightarrow> int \<Rightarrow> delta list" where
  "merged_df t rank =
     sort_values q_ts (joined_calls t rank @ map gpu_delta (gpu_kernels t rank))"

definition with_queue_length :: "delta list \<Rightarrow> ql_row list" where
  "with_queue_length stream_df =
     map (\<lambda>(d, n). \<lparr>ql_index = q_index d, ql_ts = q_ts d, ql_pid = q_pid d, ql_tid = q_tid d,
                    ql_stream = q_stream d, queue_length = n\<rparr>)
       (zip stream_df (cumsum (map queue stream_df)))"

definition queue_length_columns :: "string list" where
  "queue_length_columns = [''ts'', ''pid'', ''tid'', ''stream'', ''queue_length'']"

definition get_queue_length_time_series_for_rank ::
    "Trace \<Rightarrow> int \<Rightarrow> ql_row dataframe option" where
  "get_queue_length_time_series_for_rank t rank =
     (let merged = merged_df t rank;
          result_df_list =
            map (\<lambda>s. with_queue_length (get_group q_stream merged s))
              (group_keys q_stream merged)
      in if length result_df_list > 0
         then Some \<lparr>columns = queue_length_columns, rows = concat result_df_list\<rparr>
         else None)"

text \<open>
  The dictionary of the public functions keeps insertion order; a rank given twice
  keeps its first place.
\<close>

definition effective_ranks :: "int list option \<Rightarrow> int list" where
  "effective_ranks ranks =
     (case ranks of None \<Rightarrow> [0] | Some rs \<Rightarrow> if length rs = 0 then [0] else rs)"

definition get_queue_length_time_series ::
    "Trace \<Rightarrow> int list option \<Rightarrow> (int \<times> ql_row dataframe) list" where
  "get_queue_length_time_series t ranks =
     (let result = fold (\<lambda>rank d. AList.update rank
                          (get_queue_length_time_series_for_rank t rank) d)
                     (effective_ranks ranks) []
      in List.map_filter (\<lambda>(rank, df). map_option (Pair rank) df) result)"

subsection \<open>Memory bandwidth per memory-copy kind\<close>

text \<open>
  Reading the symbol table at a name id it does not hold raises; the error ends the
  builder and every caller of it.
\<close>

datatype error = LookupError

definition sym_lookup :: "(int \<rightharpoonup> string) \<Rightarrow> int \<Rightarrow> error + string" where
  "sym_lookup sym_table i = (case sym_table i of None \<Rightarrow> Inl LookupError | Some s \<Rightarrow> Inr s)"

text \<open>
  \<^verbatim>\<open>hta.utils.utils\<close> is not part of this file: its two classifiers are parameters.
  \<^verbatim>\<open>KernelType.MEMORY.name\<close> is the name of an enum member, the string \<^verbatim>\<open>MEMORY\<close>.
\<close>

record utils =
  get_kernel_type :: "string \<Rightarrow> string"
  get_memory_kernel_type :: "string \<Rightarrow> string"

definition KernelType_MEMORY_name :: string where
  "KernelType_MEMORY_name = ''MEMORY''"

text \<open>\<^verbatim>\<open>DataFrame.apply(f, axis=1)\<close>: row by row, ending at the first row that raises.\<close>

fun apply_rows :: "('a \<Rightarrow> error + 'b) \<Rightarrow> 'a list \<Rightarrow> error + 'b list" where
  "apply_rows f [] = Inr []"
| "apply_rows f (x # xs) =
     (case f x of
        Inl e \<Rightarrow> Inl e
      | Inr y \<Rightarrow> (case apply_rows f xs of Inl e \<Rightarrow> Inl e | Inr ys \<Rightarrow> Inr (y # ys)))"

text \<open>A row of \<^verbatim>\<open>memcpy_kernels\<close>, with the columns the builder reads.\<close>

record mem_kernel =
  mk_ts :: int
  mk_name :: string
  mk_dur :: int
  mk_pid :: int
  mk_memory_bw_gbps :: real

text \<open>
  A row of \<^verbatim>\<open>membw_time_series\<close> and of the result. \<^verbatim>\<open>bw_index\<close> is the index that
  \<^verbatim>\<open>concat(..., ignore_index=True)\<close> gives: the position in the concatenated frame.
\<close>

record bw_row =
  bw_index :: nat
  bw_ts :: int
  bw_pid :: int
  bw_name :: string
  bw_memory_bw_gbps :: real

text \<open>Lines 184 to 187: the GPU events, each with its \<^verbatim>\<open>kernel_type\<close>.\<close>

definition with_kernel_type :: "utils \<Rightarrow> Trace \<Rightarrow> int \<Rightarrow> error + (event \<times> string) list" where
  "with_kernel_type u t rank =
     apply_rows
       (\<lambda>e. case sym_lookup (get_sym_table t) (name e) of
               Inl err \<Rightarrow> Inl err
             | Inr s \<Rightarrow> Inr (e, get_kernel_type u s))
       (gpu_kernels t rank)"

text \<open>Lines 189 to 196: the memory events, renamed to their kind, zero durations made 1.\<close>

definition memcpy_kernels :: "utils \<Rightarrow> Trace \<Rightarrow> int \<Rightarrow> error + mem_kernel list" where
  "memcpy_kernels u t rank =
     (case with_kernel_type u t rank of
        Inl err \<Rightarrow> Inl err
      | Inr typed \<Rightarrow>
          apply_rows
            (\<lambda>(e, kernel_type).
               case sym_lookup (get_sym_table t) (name e) of
                 Inl err \<Rightarrow> Inl err
               | Inr s \<Rightarrow> Inr \<lparr>mk_ts = ts e, mk_name = get_memory_kernel_type u s,
                               mk_dur = (if dur e = 0 then 1 else dur e), mk_pid = pid e,
                               mk_memory_bw_gbps = memory_bw_gbps e\<rparr>)
            (filter (\<lambda>(e, kernel_type). kernel_type = KernelType_MEMORY_name) typed))"

definition membw_time_series_a :: "mem_kernel list \<Rightarrow> (int \<times> int \<times> string \<times> real) list" where
  "membw_time_series_a ks =
     map (\<lambda>k. (mk_ts k, mk_pid k, mk_name k, mk_memory_bw_gbps k)) ks"

definition membw_time_series_b :: "mem_kernel list \<Rightarrow> (int \<times> int \<times> string \<times> real) list" where
  "membw_time_series_b ks =
     map (\<lambda>k. (mk_ts k + mk_dur k, mk_pid k, mk_name k, - mk_memory_bw_gbps k)) ks"

definition membw_time_series :: "mem_kernel list \<Rightarrow> bw_row list" where
  "membw_time_series ks =
     sort_values bw_ts
       (map (\<lambda>(i, (tm, p, nm, bw)).
               \<lparr>bw_index = i, bw_ts = tm, bw_pid = p, bw_name = nm, bw_memory_bw_gbps = bw\<rparr>)
          (enumerate 0 (membw_time_series_a ks @ membw_time_series_b ks)))"

definition with_cumsum :: "bw_row list \<Rightarrow> bw_row list" where
  "with_cumsum membw_df =
     map (\<lambda>(r, v). r\<lparr>bw_memory_bw_gbps := v\<rparr>)
       (zip membw_df (cumsum (map bw_memory_bw_gbps membw_df)))"

definition memory_bw_columns :: "string list" where
  "memory_bw_columns = [''ts'', ''pid'', ''name'', ''memory_bw_gbps'']"

definition bw_result :: "mem_kernel list \<Rightarrow> bw_row dataframe option" where
  "bw_result ks =
     (let series = membw_time_series ks;
          result_df_list =
            map (\<lambda>nm. with_cumsum (get_group (\<lambda>r. Some (bw_name r)) series nm))
              (group_keys (\<lambda>r. Some (bw_name r)) series)
      in if length result_df_list = 0 then None
         else Some \<lparr>columns = memory_bw_columns, rows = concat result_df_list\<rparr>)"

definition get_memory_bw_time_series_for_rank ::
    "utils \<Rightarrow> Trace \<Rightarrow> int \<Rightarrow> error + bw_row dataframe option" where
  "get_memory_bw_time_series_for_rank u t rank =
     (case memcpy_kernels u t rank of
        Inl err \<Rightarrow> Inl err
      | Inr ks \<Rightarrow> Inr (bw_result ks))"

text \<open>The dictionary comprehension of line 252: rank by rank, ending at the first error.\<close>

fun build_dict :: "(int \<Rightarrow> error + 'v) \<Rightarrow> int list \<Rightarrow> (int \<times> 'v) list \<Rightarrow> error + (int \<times> 'v) list" where
  "build_dict f [] d = Inr d"
| "build_dict f (rank # ranks) d =
     (case f rank of
        Inl err \<Rightarrow> Inl err
      | Inr v \<Rightarrow> build_dict f ranks (AList.update rank v d))"

definition get_memory_bw_time_series ::
    "utils \<Rightarrow> Trace \<Rightarrow> int list option \<Rightarrow> error + (int \<times> bw_row dataframe) list" where
  "get_memory_bw_time_series u t ranks =
     (case build_dict (get_memory_bw_time_series_for_rank u t) (effective_ranks ranks) [] of
        Inl err \<Rightarrow> Inl err
      | Inr result \<Rightarrow> Inr (List.map_filter (\<lambda>(rank, df). map_option (Pair rank) df) result))"

subsection \<open>Memory bandwidth summary\<close>






subsection \<open>Reading the results\<close>







subsection \<open>Scenarios\<close>

definition sym_ids :: "string \<rightharpoonup> int" where
  "sym_ids = [''cudaLaunchKernel'' \<mapsto> 1, ''cudaMemcpyAsync'' \<mapsto> 2, ''cudaMemsetAsync'' \<mapsto> 3,
              ''kernel_a'' \<mapsto> 4, ''Memcpy HtoD (Pinned -> Device)'' \<mapsto> 5]"

definition sym_names :: "int \<rightharpoonup> string" where
  "sym_names = [1 \<mapsto> ''cudaLaunchKernel'', 2 \<mapsto> ''cudaMemcpyAsync'', 3 \<mapsto> ''cudaMemsetAsync'',
                4 \<mapsto> ''kernel_a'', 5 \<mapsto> ''Memcpy HtoD (Pinned -> Device)'']"

definition mk_trace :: "event list \<Rightarrow> Trace" where
  "mk_trace evs = \<lparr>get_trace = (\<lambda>rank. if rank = 0 then evs else []),
                   get_sym_id_map = sym_ids, get_sym_table = sym_names\<rparr>"

definition host_ev :: "int \<Rightarrow> int \<Rightarrow> int \<Rightarrow> int \<Rightarrow> int \<Rightarrow> event" where
  "host_ev i tm nm corr icorr =
     \<lparr>index = i, ts = tm, dur = 2, pid = 100, tid = 200, stream = -1, name = nm,
      correlation = corr, index_correlation = icorr, memory_bw_gbps = 0\<rparr>"

definition gpu_ev :: "int \<Rightarrow> int \<Rightarrow> int \<Rightarrow> int \<Rightarrow> int \<Rightarrow> int \<Rightarrow> real \<Rightarrow> event" where
  "gpu_ev i tm d s nm corr bw =
     \<lparr>index = i, ts = tm, dur = d, pid = 0, tid = s, stream = s, name = nm,
      correlation = corr, index_correlation = 0, memory_bw_gbps = bw\<rparr>"

text \<open>Scenario A: two kernel launches at 10 and 20, their kernels at 15 and 25 on stream 0.\<close>

definition scenario_A :: Trace where
  "scenario_A = mk_trace
     [host_ev 0 10 1 7 1, gpu_ev 1 15 3 0 4 7 0,
      host_ev 2 20 1 8 3, gpu_ev 3 25 3 0 4 8 0]"

definition scenario_A_series :: "ql_row dataframe" where
  "scenario_A_series =
     \<lparr>columns = [''ts'', ''pid'', ''tid'', ''stream'', ''queue_length''],
      rows =
        [\<lparr>ql_index = 0, ql_ts = 10, ql_pid = Some 0, ql_tid = Some 0, ql_stream = Some 0,
          queue_length = 1\<rparr>,
         \<lparr>ql_index = 1, ql_ts = 15, ql_pid = Some 0, ql_tid = Some 0, ql_stream = Some 0,
          queue_length = 0\<rparr>,
         \<lparr>ql_index = 2, ql_ts = 20, ql_pid = Some 0, ql_tid = Some 0, ql_stream = Some 0,
          queue_length = 1\<rparr>,
         \<lparr>ql_index = 3, ql_ts = 25, ql_pid = Some 0, ql_tid = Some 0, ql_stream = Some 0,
          queue_length = 0\<rparr>]\<rparr>"

text \<open>
  Classifiers for the scenarios, after the shape of the names the profiler gives to
  memory operations (\<^verbatim>\<open>Memcpy HtoD (...)\<close>, \<^verbatim>\<open>Memset (...)\<close>).
\<close>

definition scenario_utils :: utils where
  "scenario_utils =
     \<lparr>get_kernel_type = (\<lambda>nm. if take 6 nm = ''Memcpy'' \<or> take 6 nm = ''Memset''
                               then ''MEMORY'' else ''COMPUTATION''),
      get_memory_kernel_type = (\<lambda>nm. if take 6 nm = ''Memset'' then ''Memset'' else take 11 nm)\<rparr>"

text \<open>Scenario C: two transfers on one channel, from 0 to 10 at 4.0 and from 5 to 15 at 6.0.\<close>

definition scenario_C :: Trace where
  "scenario_C = mk_trace [gpu_ev 0 0 10 7 5 1 4, gpu_ev 1 5 10 7 5 2 6]"

text \<open>
  A kernel launch at 10 with its kernel at 15, and a kernel at 30 on the same stream
  whose correlation id no selected runtime call has.
\<close>

definition orphan_kernel_trace :: Trace where
  "orphan_kernel_trace = mk_trace
     [host_ev 0 10 1 7 1, gpu_ev 1 15 3 0 4 7 0, gpu_ev 2 30 3 0 4 9 0]"

definition orphan_kernel_series :: "ql_row dataframe" where
  "orphan_kernel_series =
     \<lparr>columns = [''ts'', ''pid'', ''tid'', ''stream'', ''queue_length''],
      rows =
        [\<lparr>ql_index = 0, ql_ts = 10, ql_pid = Some 0, ql_tid = Some 0, ql_stream = Some 0,
          queue_length = 1\<rparr>,
         \<lparr>ql_index = 1, ql_ts = 15, ql_pid = Some 0, ql_tid = Some 0, ql_stream = Some 0,
          queue_length = 0\<rparr>,
         \<lparr>ql_index = 2, ql_ts = 30, ql_pid = Some 0, ql_tid = Some 0, ql_stream = Some 0,
          queue_length = -1\<rparr>]\<rparr>"

definition scenario_C_series :: "bw_row dataframe" where
  "scenario_C_series =
     \<lparr>columns = [''ts'', ''pid'', ''name'', ''memory_bw_gbps''],
      rows =
        [\<lparr>bw_index = 0, bw_ts = 0, bw_pid = 0, bw_name = ''Memcpy HtoD'', bw_memory_bw_gbps = 4\<rparr>,
         \<lparr>bw_index = 1, bw_ts = 5, bw_pid = 0, bw_name = ''Memcpy HtoD'', bw_memory_bw_gbps = 10\<rparr>,
         \<lparr>bw_index = 2, bw_ts = 10, bw_pid = 0, bw_name = ''Memcpy HtoD'', bw_memory_bw_gbps = 6\<rparr>,
         \<lparr>bw_index = 3, bw_ts = 15, bw_pid = 0, bw_name = ''Memcpy HtoD'', bw_memory_bw_gbps = 0\<rparr>]\<rparr>"


text \<open>
  An asynchronous memory copy at 10 whose correlation id two GPU events have, one on
  stream 0 at 15 and one on stream 1 at 18.
\<close>

definition shared_correlation_trace :: Trace where
  "shared_correlation_trace = mk_trace
     [host_ev 0 10 2 7 1, gpu_ev 1 15 3 0 5 7 0, gpu_ev 2 18 3 1 5 7 0]"

definition shared_correlation_merged :: "delta list" where
  "shared_correlation_merged =
     [\<lparr>q_index = 0, q_ts = 10, q_correlation = 7, q_stream = Some 0, q_pid = Some 0,
       q_tid = Some 0, queue = 1\<rparr>,
      \<lparr>q_index = 0, q_ts = 10, q_correlation = 7, q_stream = Some 1, q_pid = Some 0,
       q_tid = Some 1, queue = 1\<rparr>,
      \<lparr>q_index = 1, q_ts = 15, q_correlation = 7, q_stream = Some 0, q_pid = Some 0,
       q_tid = Some 0, queue = -1\<rparr>,
      \<lparr>q_index = 2, q_ts = 18, q_correlation = 7, q_stream = Some 1, q_pid = Some 0,
       q_tid = Some 1, queue = -1\<rparr>]"





section \<open>Properties\<close>

subsection \<open>Running sums\<close>

lemma length_cumsum_from: "length (cumsum_from acc xs) = length xs"
  by (induction xs arbitrary: acc) simp_all

lemma length_cumsum: "length (cumsum xs) = length xs"
  by (simp add: cumsum_def length_cumsum_from)

lemma cumsum_from_nth:
  "i < length xs \<Longrightarrow> cumsum_from acc xs ! i = acc + sum_list (take (Suc i) xs)"
proof (induction xs arbitrary: acc i)
  case Nil
  then show ?case by simp
next
  case (Cons x xs)
  show ?case
  proof (cases i)
    case 0
    then show ?thesis by simp
  next
    case (Suc j)
    with Cons.prems have "j < length xs" by simp
    from Cons.IH [OF this, of "acc + x"] Suc show ?thesis
      by (simp add: add.assoc)
  qed
qed

lemma cumsum_nth: "i < length xs \<Longrightarrow> cumsum xs ! i = sum_list (take (Suc i) xs)"
  by (simp add: cumsum_def cumsum_from_nth)

lemma cumsum_last:
  assumes "xs \<noteq> []"
  shows "last (cumsum xs) = sum_list xs"
proof -
  have "cumsum xs \<noteq> []"
    using assms length_cumsum [of xs] by (metis length_0_conv)
  then have "last (cumsum xs) = cumsum xs ! (length xs - 1)"
    by (simp add: last_conv_nth length_cumsum)
  also have "\<dots> = sum_list (take (Suc (length xs - 1)) xs)"
    using assms by (intro cumsum_nth) simp
  also have "\<dots> = sum_list xs"
    using assms by simp
  finally show ?thesis .
qed

subsection \<open>Groups\<close>

lemma set_group_keys: "set (group_keys key df) = {k. \<exists>r \<in> set df. key r = Some k}"
  by (force simp: group_keys_def List.map_filter_def image_iff)

lemma distinct_group_keys: "distinct (group_keys key df)"
  by (simp add: group_keys_def)

lemma get_group_empty: "k \<notin> set (group_keys key df) \<Longrightarrow> get_group key df k = []"
  by (auto simp: set_group_keys get_group_def filter_empty_conv)

lemma get_group_nonempty: "k \<in> set (group_keys key df) \<Longrightarrow> get_group key df k \<noteq> []"
  by (auto simp: set_group_keys get_group_def filter_empty_conv)

text \<open>Putting the groups back together loses no group and mixes none.\<close>

lemma filter_concat_groups:
  assumes "distinct ks"
    and "\<And>k r. k \<in> set ks \<Longrightarrow> r \<in> set (f k) \<Longrightarrow> key r = Some k"
  shows "filter (\<lambda>r. key r = Some s) (concat (map f ks)) = (if s \<in> set ks then f s else [])"
  using assms
proof (induction ks)
  case Nil
  then show ?case by simp
next
  case (Cons k ks)
  have rest: "filter (\<lambda>r. key r = Some s) (concat (map f ks)) = (if s \<in> set ks then f s else [])"
    using Cons by simp
  have here: "filter (\<lambda>r. key r = Some s) (f k) = (if s = k then f k else [])"
    using Cons.prems(2) [of k] by (auto simp: filter_empty_conv intro: filter_True)
  from Cons.prems(1) have "s = k \<Longrightarrow> s \<notin> set ks" by auto
  with rest here show ?case by auto
qed

subsection \<open>The queue length builder, group by group\<close>

lemma length_with_queue_length: "length (with_queue_length xs) = length xs"
  by (simp add: with_queue_length_def length_cumsum)

lemma map_fst_zip_cumsum: "map fst (zip xs (cumsum (map f xs))) = xs"
  by (simp add: length_cumsum)

lemma map_snd_zip_cumsum: "map snd (zip xs (cumsum (map f xs))) = cumsum (map f xs)"
  by (simp add: length_cumsum)

lemma ql_stream_with_queue_length: "map ql_stream (with_queue_length xs) = map q_stream xs"
proof -
  have "map ql_stream (with_queue_length xs) = map q_stream (map fst (zip xs (cumsum (map queue xs))))"
    by (simp add: with_queue_length_def case_prod_beta comp_def)
  then show ?thesis by (simp only: map_fst_zip_cumsum)
qed

lemma ql_ts_with_queue_length: "map ql_ts (with_queue_length xs) = map q_ts xs"
proof -
  have "map ql_ts (with_queue_length xs) = map q_ts (map fst (zip xs (cumsum (map queue xs))))"
    by (simp add: with_queue_length_def case_prod_beta comp_def)
  then show ?thesis by (simp only: map_fst_zip_cumsum)
qed

lemma queue_length_with_queue_length:
  "map queue_length (with_queue_length xs) = cumsum (map queue xs)"
proof -
  have "map queue_length (with_queue_length xs) = map snd (zip xs (cumsum (map queue xs)))"
    by (simp add: with_queue_length_def case_prod_beta comp_def)
  then show ?thesis by (simp only: map_snd_zip_cumsum)
qed

lemma ql_rows_by_stream:
  assumes "get_queue_length_time_series_for_rank t rank = Some df"
  shows "filter (\<lambda>r. ql_stream r = Some s) (rows df)
         = with_queue_length (get_group q_stream (merged_df t rank) s)"
proof -
  let ?m = "merged_df t rank"
  let ?f = "\<lambda>k. with_queue_length (get_group q_stream ?m k)"
  have rows: "rows df = concat (map ?f (group_keys q_stream ?m))"
    using assms by (auto simp: get_queue_length_time_series_for_rank_def Let_def split: if_splits)
  have key: "ql_stream r = Some k" if "r \<in> set (?f k)" for k r
  proof -
    from that have "ql_stream r \<in> set (map ql_stream (?f k))" by simp
    then have "ql_stream r \<in> set (map q_stream (get_group q_stream ?m k))"
      by (simp only: ql_stream_with_queue_length)
    then show ?thesis by (auto simp: get_group_def)
  qed
  have "filter (\<lambda>r. ql_stream r = Some s) (rows df)
        = (if s \<in> set (group_keys q_stream ?m) then ?f s else [])"
    unfolding rows by (rule filter_concat_groups) (auto simp: distinct_group_keys key)
  moreover have "?f s = []" if "s \<notin> set (group_keys q_stream ?m)"
    using get_group_empty [OF that] by (simp add: with_queue_length_def)
  ultimately show ?thesis by auto
qed

lemma sorted_merged_df: "sorted (map q_ts (merged_df t rank))"
  by (simp add: merged_df_def sort_values_def)

lemma sorted_get_group: "sorted (map f df) \<Longrightarrow> sorted (map f (get_group key df k))"
  by (simp add: get_group_def sorted_filter)

lemma join_row_fields:
  "d \<in> set (join_row gs r) \<Longrightarrow>
     queue d = 1 \<and> q_index d = index r \<and> q_ts d = ts r \<and> q_correlation d = correlation r"
  by (auto simp: join_row_def Let_def split: if_splits)

lemma queue_merged_df: "d \<in> set (merged_df t rank) \<Longrightarrow> queue d = 1 \<or> queue d = -1"
  by (auto simp: merged_df_def sort_values_def joined_calls_def gpu_delta_def dest: join_row_fields)

lemma sum_list_filter_sort_key:
  fixes g :: "'a \<Rightarrow> 'b::comm_monoid_add"
  shows "sum_list (map g (filter P (sort_key f xs))) = sum_list (map g (filter P xs))"
proof -
  have "mset (map g (filter P (sort_key f xs))) = mset (map g (filter P xs))"
    by simp
  then show ?thesis by (metis sum_mset_sum_list)
qed

lemma sum_queue_group:
  "sum_list (map queue (get_group q_stream (merged_df t rank) s))
   = int (length (filter (\<lambda>d. q_stream d = Some s) (joined_calls t rank)))
     - int (length (filter (\<lambda>g. stream g = s) (gpu_kernels t rank)))"
proof -
  let ?P = "\<lambda>d. q_stream d = Some s"
  have j: "sum_list (map queue (filter ?P js)) = int (length (filter ?P js))"
    if "\<And>d. d \<in> set js \<Longrightarrow> queue d = 1" for js
    using that by (induction js) auto
  have g: "sum_list (map queue (filter ?P (map gpu_delta gs))) = - int (length (filter (\<lambda>g. stream g = s) gs))" for gs
    by (induction gs) (auto simp: gpu_delta_def)
  have "\<And>d. d \<in> set (joined_calls t rank) \<Longrightarrow> queue d = 1"
    by (auto simp: joined_calls_def dest: join_row_fields)
  from j [OF this] g show ?thesis
    by (simp add: get_group_def merged_df_def sort_values_def sum_list_filter_sort_key)
qed

lemma scenario_A_result:
  "get_queue_length_time_series_for_rank scenario_A 0 = Some scenario_A_series"
  by code_simp

subsection \<open>The queue length of a stream\<close>

text \<open>
  C1. In the result of the queue length builder, the rows of a stream are the rows of
  that stream in the merged frame, which is in ascending order of \<open>ts\<close>, and their
  \<open>queue_length\<close> is the running sum of the \<open>queue\<close> column, whose entries are +1 and -1:
  row \<open>i\<close> holds the sum of the first \<open>i + 1\<close> deltas. The last row of the stream holds
  the sum of all its deltas, which is the number of joined runtime calls of the stream
  minus the number of its GPU events. In Scenario A the series of stream 0 is
  (10,1), (15,0), (20,1), (25,0).
\<close>

theorem queue_length_is_running_sum:
  "(get_queue_length_time_series_for_rank t rank = Some df \<longrightarrow>
      (let g = filter (\<lambda>r. ql_stream r = Some s) (rows df);
           d = get_group q_stream (merged_df t rank) s
       in length g = length d \<and> map ql_ts g = map q_ts d \<and> sorted (map q_ts d)
          \<and> set (map queue d) \<subseteq> {1, -1}
          \<and> (\<forall>i < length g. queue_length (g ! i) = sum_list (take (Suc i) (map queue d)))
          \<and> (g \<noteq> [] \<longrightarrow>
               queue_length (last g) = sum_list (map queue d)
               \<and> queue_length (last g)
                 = int (length (filter (\<lambda>d. q_stream d = Some s) (joined_calls t rank)))
                   - int (length (filter (\<lambda>e. stream e = s) (gpu_kernels t rank))))))
   \<and> map (\<lambda>r. (ql_ts r, queue_length r))
       (filter (\<lambda>r. ql_stream r = Some 0)
          (rows (the (get_queue_length_time_series_for_rank scenario_A 0))))
     = [(10, 1), (15, 0), (20, 1), (25, 0)]"
proof (intro conjI impI)
  assume res: "get_queue_length_time_series_for_rank t rank = Some df"
  define g where "g = filter (\<lambda>r. ql_stream r = Some s) (rows df)"
  define d where "d = get_group q_stream (merged_df t rank) s"
  have g: "g = with_queue_length d"
    unfolding g_def d_def by (rule ql_rows_by_stream [OF res])
  have len: "length g = length d"
    by (simp add: g length_with_queue_length)
  have tss: "map ql_ts g = map q_ts d"
    by (simp only: g ql_ts_with_queue_length)
  have srt: "sorted (map q_ts d)"
    unfolding d_def by (rule sorted_get_group [OF sorted_merged_df])
  have pm: "set (map queue d) \<subseteq> {1, -1}"
    using queue_merged_df [of _ t rank] by (auto simp: d_def get_group_def)
  have vals: "map queue_length g = cumsum (map queue d)"
    by (simp only: g queue_length_with_queue_length)
  have nth: "queue_length (g ! i) = sum_list (take (Suc i) (map queue d))" if "i < length g" for i
  proof -
    have "queue_length (g ! i) = map queue_length g ! i"
      using that by simp
    also have "\<dots> = sum_list (take (Suc i) (map queue d))"
      unfolding vals using that len by (intro cumsum_nth) simp
    finally show ?thesis .
  qed
  have lst: "queue_length (last g) = sum_list (map queue d)" if "g \<noteq> []"
  proof -
    have "queue_length (last g) = last (map queue_length g)"
      using that by (simp add: last_map)
    also have "\<dots> = sum_list (map queue d)"
      unfolding vals using that len by (intro cumsum_last) auto
    finally show ?thesis .
  qed
  have total: "sum_list (map queue d)
      = int (length (filter (\<lambda>d. q_stream d = Some s) (joined_calls t rank)))
        - int (length (filter (\<lambda>e. stream e = s) (gpu_kernels t rank)))"
    unfolding d_def by (rule sum_queue_group)
  from len tss srt pm nth lst total
  show "let g = filter (\<lambda>r. ql_stream r = Some s) (rows df);
            d = get_group q_stream (merged_df t rank) s
        in length g = length d \<and> map ql_ts g = map q_ts d \<and> sorted (map q_ts d)
           \<and> set (map queue d) \<subseteq> {1, -1}
           \<and> (\<forall>i < length g. queue_length (g ! i) = sum_list (take (Suc i) (map queue d)))
           \<and> (g \<noteq> [] \<longrightarrow>
                queue_length (last g) = sum_list (map queue d)
                \<and> queue_length (last g)
                  = int (length (filter (\<lambda>d. q_stream d = Some s) (joined_calls t rank)))
                    - int (length (filter (\<lambda>e. stream e = s) (gpu_kernels t rank))))"
    unfolding Let_def g_def [symmetric] d_def [symmetric] by simp
next
  show "map (\<lambda>r. (ql_ts r, queue_length r))
       (filter (\<lambda>r. ql_stream r = Some 0)
          (rows (the (get_queue_length_time_series_for_rank scenario_A 0))))
     = [(10, 1), (15, 0), (20, 1), (25, 0)]"
    by (simp add: scenario_A_result scenario_A_series_def)
qed

theorem queue_length_is_running_sum_witness:
  "get_queue_length_time_series_for_rank scenario_A 0 = Some scenario_A_series
   \<and> (let g = filter (\<lambda>r. ql_stream r = Some 0) (rows scenario_A_series);
          d = get_group q_stream (merged_df scenario_A 0) 0
      in length g = 4 \<and> length d = 4 \<and> map ql_ts g = map q_ts d
         \<and> (\<forall>i < length g. queue_length (g ! i) = sum_list (take (Suc i) (map queue d)))
         \<and> queue_length (last g) = sum_list (map queue d))"
proof -
  have g: "filter (\<lambda>r. ql_stream r = Some 0) (rows scenario_A_series) \<noteq> []"
    and l: "length (filter (\<lambda>r. ql_stream r = Some 0) (rows scenario_A_series)) = 4"
    by (simp_all add: scenario_A_series_def)
  from queue_length_is_running_sum [of scenario_A 0 scenario_A_series 0] scenario_A_result g l
  show ?thesis
    unfolding Let_def by metis
qed

subsection \<open>The bandwidth builder, group by group\<close>

lemma orphan_kernel_result:
  "get_queue_length_time_series_for_rank orphan_kernel_trace 0 = Some orphan_kernel_series"
  by code_simp


lemma scenario_C_result:
  "get_memory_bw_time_series_for_rank scenario_utils scenario_C 0 = Inr (Some scenario_C_series)"
  by code_simp

lemma length_with_cumsum: "length (with_cumsum xs) = length xs"
  by (simp add: with_cumsum_def length_cumsum)

lemma bw_name_with_cumsum: "map bw_name (with_cumsum xs) = map bw_name xs"
proof -
  have "map bw_name (with_cumsum xs)
        = map bw_name (map fst (zip xs (cumsum (map bw_memory_bw_gbps xs))))"
    by (simp add: with_cumsum_def case_prod_beta comp_def)
  then show ?thesis by (simp only: map_fst_zip_cumsum)
qed

lemma bw_ts_with_cumsum: "map bw_ts (with_cumsum xs) = map bw_ts xs"
proof -
  have "map bw_ts (with_cumsum xs)
        = map bw_ts (map fst (zip xs (cumsum (map bw_memory_bw_gbps xs))))"
    by (simp add: with_cumsum_def case_prod_beta comp_def)
  then show ?thesis by (simp only: map_fst_zip_cumsum)
qed

lemma bw_index_with_cumsum: "map bw_index (with_cumsum xs) = map bw_index xs"
proof -
  have "map bw_index (with_cumsum xs)
        = map bw_index (map fst (zip xs (cumsum (map bw_memory_bw_gbps xs))))"
    by (simp add: with_cumsum_def case_prod_beta comp_def)
  then show ?thesis by (simp only: map_fst_zip_cumsum)
qed


lemma bw_result_rows:
  "bw_result ks = Some df \<Longrightarrow>
     rows df = concat (map (\<lambda>nm. with_cumsum (get_group (\<lambda>r. Some (bw_name r)) (membw_time_series ks) nm))
                 (group_keys (\<lambda>r. Some (bw_name r)) (membw_time_series ks)))
     \<and> columns df = memory_bw_columns"
  by (auto simp: bw_result_def Let_def split: if_splits)

lemma bw_rows_by_name:
  assumes "bw_result ks = Some df"
  shows "filter (\<lambda>r. bw_name r = c) (rows df)
         = with_cumsum (get_group (\<lambda>r. Some (bw_name r)) (membw_time_series ks) c)"
proof -
  let ?m = "membw_time_series ks"
  let ?key = "\<lambda>r. Some (bw_name r)"
  let ?f = "\<lambda>k. with_cumsum (get_group ?key ?m k)"
  have rows: "rows df = concat (map ?f (group_keys ?key ?m))"
    using bw_result_rows [OF assms] by simp
  have key: "?key r = Some k" if "r \<in> set (?f k)" for k r
  proof -
    from that have "bw_name r \<in> set (map bw_name (?f k))" by simp
    then have "bw_name r \<in> set (map bw_name (get_group ?key ?m k))"
      by (simp only: bw_name_with_cumsum)
    then show ?thesis by (auto simp: get_group_def)
  qed
  have "filter (\<lambda>r. ?key r = Some c) (rows df)
        = (if c \<in> set (group_keys ?key ?m) then ?f c else [])"
    unfolding rows by (rule filter_concat_groups) (auto simp: distinct_group_keys key)
  moreover have "?f c = []" if "c \<notin> set (group_keys ?key ?m)"
    using get_group_empty [OF that] by (simp add: with_cumsum_def)
  ultimately show ?thesis by auto
qed

lemma sorted_membw_time_series: "sorted (map bw_ts (membw_time_series ks))"
  by (simp add: membw_time_series_def sort_values_def)

lemma bw_builder_cases:
  "get_memory_bw_time_series_for_rank u t rank = Inr r \<Longrightarrow>
     \<exists>ks. memcpy_kernels u t rank = Inr ks \<and> r = bw_result ks"
  by (auto simp: get_memory_bw_time_series_for_rank_def split: sum.splits)

text \<open>
  C9. In the result of either builder the rows of a group (a stream for the queue
  length, a memory-copy kind for the bandwidth) are in non-decreasing order of \<open>ts\<close>.
\<close>

theorem series_sorted_by_ts:
  "(get_queue_length_time_series_for_rank t rank = Some df \<longrightarrow>
      sorted (map ql_ts (filter (\<lambda>r. ql_stream r = Some s) (rows df))))
   \<and> (get_memory_bw_time_series_for_rank u t' rank' = Inr (Some bdf) \<longrightarrow>
      sorted (map bw_ts (filter (\<lambda>r. bw_name r = c) (rows bdf))))"
proof (intro conjI impI)
  assume "get_queue_length_time_series_for_rank t rank = Some df"
  from ql_rows_by_stream [OF this, of s]
  have "map ql_ts (filter (\<lambda>r. ql_stream r = Some s) (rows df))
        = map q_ts (get_group q_stream (merged_df t rank) s)"
    by (simp only: ql_ts_with_queue_length)
  then show "sorted (map ql_ts (filter (\<lambda>r. ql_stream r = Some s) (rows df)))"
    using sorted_get_group [OF sorted_merged_df, of q_stream t rank s] by simp
next
  assume "get_memory_bw_time_series_for_rank u t' rank' = Inr (Some bdf)"
  then obtain ks where "bw_result ks = Some bdf"
    using bw_builder_cases by metis
  from bw_rows_by_name [OF this, of c]
  have "map bw_ts (filter (\<lambda>r. bw_name r = c) (rows bdf))
        = map bw_ts (get_group (\<lambda>r. Some (bw_name r)) (membw_time_series ks) c)"
    by (simp only: bw_ts_with_cumsum)
  then show "sorted (map bw_ts (filter (\<lambda>r. bw_name r = c) (rows bdf)))"
    using sorted_get_group [OF sorted_membw_time_series, of "\<lambda>r. Some (bw_name r)" ks c] by simp
qed

theorem series_sorted_by_ts_witness:
  "get_queue_length_time_series_for_rank scenario_A 0 = Some scenario_A_series
   \<and> sorted (map ql_ts (filter (\<lambda>r. ql_stream r = Some 0) (rows scenario_A_series)))
   \<and> get_memory_bw_time_series_for_rank scenario_utils scenario_C 0 = Inr (Some scenario_C_series)
   \<and> sorted (map bw_ts (filter (\<lambda>r. bw_name r = ''Memcpy HtoD'') (rows scenario_C_series)))"
  using series_sorted_by_ts [where t = scenario_A and rank = 0 and df = scenario_A_series
      and s = 0 and u = scenario_utils and t' = scenario_C and rank' = 0
      and bdf = scenario_C_series and c = "''Memcpy HtoD''"]
    scenario_A_result scenario_C_result
  by blast

text \<open>
  C10. The queue length can be negative. In a trace with a kernel launch at 10, its
  kernel at 15 on stream 0, and one more kernel at 30 on stream 0 whose correlation id
  no selected runtime call has, the series of stream 0 is (10,1), (15,0), (30,-1): the
  last GPU event takes 1 off although nothing added 1 for it.
\<close>

theorem queue_length_can_be_negative:
  "get_trace orphan_kernel_trace 0
     = [host_ev 0 10 1 7 1, gpu_ev 1 15 3 0 4 7 0, gpu_ev 2 30 3 0 4 9 0]
   \<and> stream (gpu_ev 2 30 3 0 4 9 0) \<noteq> -1
   \<and> filter (\<lambda>r. correlation r = correlation (gpu_ev 2 30 3 0 4 9 0))
        (runtime_calls orphan_kernel_trace 0) = []
   \<and> get_queue_length_time_series_for_rank orphan_kernel_trace 0 = Some orphan_kernel_series
   \<and> queue_length (last (rows orphan_kernel_series)) = -1
   \<and> map (\<lambda>r. (ql_ts r, queue_length r)) (rows orphan_kernel_series)
       = [(10, 1), (15, 0), (30, -1)]"
proof (intro conjI)
  show "get_trace orphan_kernel_trace 0
     = [host_ev 0 10 1 7 1, gpu_ev 1 15 3 0 4 7 0, gpu_ev 2 30 3 0 4 9 0]"
    by (simp add: orphan_kernel_trace_def mk_trace_def)
  show "stream (gpu_ev 2 30 3 0 4 9 0) \<noteq> -1"
    by (simp add: gpu_ev_def)
  show "filter (\<lambda>r. correlation r = correlation (gpu_ev 2 30 3 0 4 9 0))
        (runtime_calls orphan_kernel_trace 0) = []"
    by code_simp
  show "get_queue_length_time_series_for_rank orphan_kernel_trace 0 = Some orphan_kernel_series"
    by (rule orphan_kernel_result)
  show "queue_length (last (rows orphan_kernel_series)) = -1"
    by (simp add: orphan_kernel_series_def)
  show "map (\<lambda>r. (ql_ts r, queue_length r)) (rows orphan_kernel_series)
       = [(10, 1), (15, 0), (30, -1)]"
    by (simp add: orphan_kernel_series_def)
qed

text \<open>
  C6, as stated, fails: the rows of the memory bandwidth series have no thread id. In
  Scenario C the result has the columns ts, pid, name and memory_bw_gbps only.
\<close>

theorem bandwidth_rows_have_no_tid:
  "get_memory_bw_time_series_for_rank scenario_utils scenario_C 0 = Inr (Some scenario_C_series)
   \<and> ''tid'' \<notin> set (columns scenario_C_series)"
  by (simp add: scenario_C_result) (simp add: scenario_C_series_def)

text \<open>
  C6, amended. Every row of a queue length series carries ts, pid, tid, stream and
  queue_length. Every row of a memory bandwidth series carries ts, pid, name and
  memory_bw_gbps, and no thread id.
\<close>

theorem series_columns:
  "(get_queue_length_time_series_for_rank t rank = Some df \<longrightarrow>
      columns df = [''ts'', ''pid'', ''tid'', ''stream'', ''queue_length''])
   \<and> (get_memory_bw_time_series_for_rank u t' rank' = Inr (Some bdf) \<longrightarrow>
      columns bdf = [''ts'', ''pid'', ''name'', ''memory_bw_gbps'']
      \<and> ''tid'' \<notin> set (columns bdf))"
proof (intro conjI impI)
  assume "get_queue_length_time_series_for_rank t rank = Some df"
  then show "columns df = [''ts'', ''pid'', ''tid'', ''stream'', ''queue_length'']"
    by (auto simp: get_queue_length_time_series_for_rank_def Let_def queue_length_columns_def
        split: if_splits)
next
  assume "get_memory_bw_time_series_for_rank u t' rank' = Inr (Some bdf)"
  then obtain ks where "bw_result ks = Some bdf"
    using bw_builder_cases by metis
  from bw_result_rows [OF this]
  have c: "columns bdf = [''ts'', ''pid'', ''name'', ''memory_bw_gbps'']"
    by (simp add: memory_bw_columns_def)
  then show "columns bdf = [''ts'', ''pid'', ''name'', ''memory_bw_gbps'']" .
  from c show "''tid'' \<notin> set (columns bdf)"
    by simp
qed

theorem series_columns_witness:
  "get_queue_length_time_series_for_rank scenario_A 0 = Some scenario_A_series
   \<and> columns scenario_A_series = [''ts'', ''pid'', ''tid'', ''stream'', ''queue_length'']
   \<and> get_memory_bw_time_series_for_rank scenario_utils scenario_C 0 = Inr (Some scenario_C_series)
   \<and> columns scenario_C_series = [''ts'', ''pid'', ''name'', ''memory_bw_gbps'']
   \<and> ''tid'' \<notin> set (columns scenario_C_series)"
  using series_columns [where t = scenario_A and rank = 0 and df = scenario_A_series
      and u = scenario_utils and t' = scenario_C and rank' = 0 and bdf = scenario_C_series]
    scenario_A_result scenario_C_result
  by blast

subsection \<open>The dictionaries of ranks\<close>

lemma map_of_fold_update:
  "map_of (fold (\<lambda>rank d. AList.update rank (f rank) d) rs d0) k
   = (if k \<in> set rs then Some (f k) else map_of d0 k)"
  by (induction rs arbitrary: d0) (simp_all add: update_conv')

lemma distinct_fold_update:
  "distinct (map fst d0) \<Longrightarrow>
     distinct (map fst (fold (\<lambda>rank d. AList.update rank (f rank) d) rs d0))"
  by (induction rs arbitrary: d0) (simp_all add: distinct_update)

lemma in_fold_update:
  "(k, v) \<in> set (fold (\<lambda>rank d. AList.update rank (f rank) d) rs [])
   \<longleftrightarrow> k \<in> set rs \<and> v = f k"
proof -
  let ?d = "fold (\<lambda>rank d. AList.update rank (f rank) d) rs []"
  have "distinct (map fst ?d)"
    by (rule distinct_fold_update) simp
  then have "(k, v) \<in> set ?d \<longleftrightarrow> map_of ?d k = Some v"
    by simp
  then show ?thesis
    by (auto simp: map_of_fold_update)
qed

lemma in_drop_none:
  "(k, df) \<in> set (List.map_filter (\<lambda>(rank, df). map_option (Pair rank) df) result)
   \<longleftrightarrow> (k, Some df) \<in> set result"
  by (force simp: List.map_filter_def image_iff)

lemma in_get_queue_length_time_series:
  "(k, df) \<in> set (get_queue_length_time_series t ranks)
   \<longleftrightarrow> k \<in> set (effective_ranks ranks) \<and> get_queue_length_time_series_for_rank t k = Some df"
  by (auto simp: get_queue_length_time_series_def Let_def in_drop_none in_fold_update)

lemma build_dict_Inl:
  "build_dict f rs d0 = Inl e \<Longrightarrow> \<exists>r \<in> set rs. f r = Inl e"
  by (induction rs arbitrary: d0) (auto split: sum.splits)

lemma build_dict_Inr:
  "build_dict f rs d0 = Inr d \<Longrightarrow> distinct (map fst d0) \<Longrightarrow>
     distinct (map fst d)
     \<and> map_of d k = (if k \<in> set rs then (case f k of Inl e \<Rightarrow> None | Inr v \<Rightarrow> Some v)
                     else map_of d0 k)"
proof (induction rs arbitrary: d0)
  case Nil
  then show ?case by simp
next
  case (Cons r rs)
  from Cons.prems(1) obtain v where v: "f r = Inr v"
    and rest: "build_dict f rs (AList.update r v d0) = Inr d"
    by (auto split: sum.splits)
  from Cons.IH [OF rest] Cons.prems(2) v show ?case
    by (auto simp: distinct_update update_conv')
qed

lemma build_dict_total:
  "(\<And>r. r \<in> set rs \<Longrightarrow> \<exists>v. f r = Inr v) \<Longrightarrow> \<exists>d. build_dict f rs d0 = Inr d"
proof (induction rs arbitrary: d0)
  case Nil
  then show ?case by simp
next
  case (Cons r rs)
  then obtain v where "f r = Inr v" by auto
  with Cons show ?case by simp
qed

lemma in_build_dict:
  assumes "build_dict f rs [] = Inr d"
  shows "(k, v) \<in> set d \<longleftrightarrow> k \<in> set rs \<and> f k = Inr v"
proof -
  from build_dict_Inr [OF assms, of k]
  have dist: "distinct (map fst d)"
    and look: "map_of d k = (if k \<in> set rs then (case f k of Inl e \<Rightarrow> None | Inr v \<Rightarrow> Some v) else None)"
    by simp_all
  from dist have "(k, v) \<in> set d \<longleftrightarrow> map_of d k = Some v"
    by simp
  with look show ?thesis
    by (auto split: sum.splits if_splits)
qed

lemma in_get_memory_bw_time_series:
  assumes "get_memory_bw_time_series u t ranks = Inr d"
  shows "(k, df) \<in> set d
   \<longleftrightarrow> k \<in> set (effective_ranks ranks) \<and> get_memory_bw_time_series_for_rank u t k = Inr (Some df)"
proof -
  from assms obtain result
    where b: "build_dict (get_memory_bw_time_series_for_rank u t) (effective_ranks ranks) [] = Inr result"
      and d: "d = List.map_filter (\<lambda>(rank, df). map_option (Pair rank) df) result"
    by (auto simp: get_memory_bw_time_series_def split: sum.splits)
  show ?thesis
    unfolding d in_drop_none in_build_dict [OF b] ..
qed

lemma get_memory_bw_time_series_Inl:
  "get_memory_bw_time_series u t ranks = Inl e \<Longrightarrow>
     \<exists>r \<in> set (effective_ranks ranks). get_memory_bw_time_series_for_rank u t r = Inl e"
  by (auto simp: get_memory_bw_time_series_def split: sum.splits dest: build_dict_Inl)

lemma get_memory_bw_time_series_total:
  assumes "\<And>r. r \<in> set (effective_ranks ranks) \<Longrightarrow> \<exists>v. get_memory_bw_time_series_for_rank u t r = Inr v"
  shows "\<exists>d. get_memory_bw_time_series u t ranks = Inr d"
  using build_dict_total [of "effective_ranks ranks" "get_memory_bw_time_series_for_rank u t" "[]"] assms
  by (auto simp: get_memory_bw_time_series_def)

lemma concat_groups_nonempty:
  assumes "ks \<noteq> []" and "\<And>k. k \<in> set ks \<Longrightarrow> f k \<noteq> []"
  shows "concat (map f ks) \<noteq> []"
  using assms by (cases ks) auto

lemma ql_rows_nonempty:
  assumes "get_queue_length_time_series_for_rank t rank = Some df"
  shows "rows df \<noteq> []"
proof -
  let ?m = "merged_df t rank"
  from assms have ks: "group_keys q_stream ?m \<noteq> []"
    and rows: "rows df = concat (map (\<lambda>s. with_queue_length (get_group q_stream ?m s)) (group_keys q_stream ?m))"
    by (auto simp: get_queue_length_time_series_for_rank_def Let_def split: if_splits)
  have "with_queue_length (get_group q_stream ?m k) \<noteq> []" if "k \<in> set (group_keys q_stream ?m)" for k
    using get_group_nonempty [OF that] length_with_queue_length [of "get_group q_stream ?m k"]
    by (metis length_0_conv)
  with ks show ?thesis
    unfolding rows by (intro concat_groups_nonempty) auto
qed

lemma bw_rows_nonempty:
  assumes "bw_result ks = Some df"
  shows "rows df \<noteq> []"
proof -
  let ?m = "membw_time_series ks"
  let ?key = "\<lambda>r. Some (bw_name r)"
  from assms have ne: "group_keys ?key ?m \<noteq> []"
    by (auto simp: bw_result_def Let_def split: if_splits)
  have rows: "rows df = concat (map (\<lambda>nm. with_cumsum (get_group ?key ?m nm)) (group_keys ?key ?m))"
    using bw_result_rows [OF assms] by simp
  have "with_cumsum (get_group ?key ?m k) \<noteq> []" if "k \<in> set (group_keys ?key ?m)" for k
    using get_group_nonempty [OF that] length_with_cumsum [of "get_group ?key ?m k"]
    by (metis length_0_conv)
  with ne show ?thesis
    unfolding rows by (intro concat_groups_nonempty) auto
qed

lemma ql_none_without_gpu_kernels:
  assumes "gpu_kernels t rank = []"
  shows "get_queue_length_time_series_for_rank t rank = None"
proof -
  have "q_stream d = None" if "d \<in> set (merged_df t rank)" for d
    using that assms
    by (auto simp: merged_df_def sort_values_def joined_calls_def join_row_def)
  then have "set (group_keys q_stream (merged_df t rank)) = {}"
    by (auto simp: set_group_keys)
  then have "group_keys q_stream (merged_df t rank) = []"
    by simp
  then show ?thesis
    by (simp add: get_queue_length_time_series_for_rank_def)
qed

lemma bw_result_Nil: "bw_result [] = None"
  by (simp add: bw_result_def membw_time_series_def membw_time_series_a_def
      membw_time_series_b_def sort_values_def group_keys_def List.map_filter_def)

lemma bw_none_without_gpu_kernels:
  assumes "gpu_kernels t rank = []"
  shows "get_memory_bw_time_series_for_rank u t rank = Inr None"
proof -
  have "with_kernel_type u t rank = Inr []"
    by (simp add: with_kernel_type_def assms)
  then have "memcpy_kernels u t rank = Inr []"
    by (simp add: memcpy_kernels_def)
  then show ?thesis
    by (simp add: get_memory_bw_time_series_for_rank_def bw_result_Nil)
qed

lemma scenario_A_dict:
  "get_queue_length_time_series scenario_A (Some [1, 0]) = [(0, scenario_A_series)]"
  by code_simp

lemma scenario_C_dict:
  "get_memory_bw_time_series scenario_utils scenario_C (Some [1, 0]) = Inr [(0, scenario_C_series)]"
  by code_simp

lemma scenario_rank_1_empty:
  "gpu_kernels scenario_A 1 = []" "gpu_kernels scenario_C 1 = []"
  by (simp_all add: gpu_kernels_def scenario_A_def scenario_C_def mk_trace_def)

text \<open>
  C7. A rank whose builder gives no rows, as a rank without GPU events does, is not a key
  of the returned dictionary, and no entry of the dictionary has an empty series: an
  entry is the non-empty result of the builder for a requested rank. Asking for such a
  rank raises nothing: the queue length functions raise nothing at all, and the memory
  bandwidth dictionary is returned whenever no builder of a requested rank raises, so an
  error can only come from another rank.
\<close>

theorem rank_without_rows_is_absent:
  "(gpu_kernels t r = [] \<longrightarrow> get_queue_length_time_series_for_rank t r = None)
   \<and> (get_queue_length_time_series_for_rank t r = None \<longrightarrow>
        r \<notin> fst ` set (get_queue_length_time_series t ranks))
   \<and> ((k, df) \<in> set (get_queue_length_time_series t ranks) \<longrightarrow>
        rows df \<noteq> [] \<and> get_queue_length_time_series_for_rank t k = Some df)
   \<and> (gpu_kernels t' r' = [] \<longrightarrow> get_memory_bw_time_series_for_rank u t' r' = Inr None)
   \<and> (get_memory_bw_time_series_for_rank u t' r' = Inr None \<longrightarrow>
        (case get_memory_bw_time_series u t' ranks' of
           Inr d \<Rightarrow> r' \<notin> fst ` set d
         | Inl e \<Rightarrow> \<exists>x \<in> set (effective_ranks ranks').
                      x \<noteq> r' \<and> get_memory_bw_time_series_for_rank u t' x = Inl e))
   \<and> (get_memory_bw_time_series u t' ranks' = Inr d \<longrightarrow> (k', bdf) \<in> set d \<longrightarrow>
        rows bdf \<noteq> [] \<and> get_memory_bw_time_series_for_rank u t' k' = Inr (Some bdf))
   \<and> ((\<forall>x \<in> set (effective_ranks ranks'). \<exists>v. get_memory_bw_time_series_for_rank u t' x = Inr v)
        \<longrightarrow> (\<exists>d. get_memory_bw_time_series u t' ranks' = Inr d))"
proof (intro conjI impI)
  assume "gpu_kernels t r = []"
  then show "get_queue_length_time_series_for_rank t r = None"
    by (rule ql_none_without_gpu_kernels)
next
  assume "get_queue_length_time_series_for_rank t r = None"
  then show "r \<notin> fst ` set (get_queue_length_time_series t ranks)"
    by (auto simp: in_get_queue_length_time_series)
next
  assume "(k, df) \<in> set (get_queue_length_time_series t ranks)"
  then have "get_queue_length_time_series_for_rank t k = Some df"
    by (simp add: in_get_queue_length_time_series)
  then show "rows df \<noteq> []" "get_queue_length_time_series_for_rank t k = Some df"
    by (simp_all add: ql_rows_nonempty)
next
  assume "gpu_kernels t' r' = []"
  then show "get_memory_bw_time_series_for_rank u t' r' = Inr None"
    by (rule bw_none_without_gpu_kernels)
next
  assume none: "get_memory_bw_time_series_for_rank u t' r' = Inr None"
  show "case get_memory_bw_time_series u t' ranks' of
           Inr d \<Rightarrow> r' \<notin> fst ` set d
         | Inl e \<Rightarrow> \<exists>x \<in> set (effective_ranks ranks').
                      x \<noteq> r' \<and> get_memory_bw_time_series_for_rank u t' x = Inl e"
  proof (cases "get_memory_bw_time_series u t' ranks'")
    case (Inl e)
    from get_memory_bw_time_series_Inl [OF this]
    obtain x where x: "x \<in> set (effective_ranks ranks')"
      and e: "get_memory_bw_time_series_for_rank u t' x = Inl e"
      by blast
    from e none have "x \<noteq> r'" by auto
    with x e show ?thesis
      unfolding Inl by auto
  next
    case (Inr d)
    from in_get_memory_bw_time_series [OF this] none show ?thesis
      unfolding Inr by auto
  qed
next
  assume d: "get_memory_bw_time_series u t' ranks' = Inr d" and "(k', bdf) \<in> set d"
  then have b: "get_memory_bw_time_series_for_rank u t' k' = Inr (Some bdf)"
    by (simp add: in_get_memory_bw_time_series)
  then obtain ks where "bw_result ks = Some bdf"
    using bw_builder_cases by metis
  then show "rows bdf \<noteq> []"
    by (rule bw_rows_nonempty)
  from b show "get_memory_bw_time_series_for_rank u t' k' = Inr (Some bdf)" .
next
  assume "\<forall>x \<in> set (effective_ranks ranks'). \<exists>v. get_memory_bw_time_series_for_rank u t' x = Inr v"
  then show "\<exists>d. get_memory_bw_time_series u t' ranks' = Inr d"
    by (intro get_memory_bw_time_series_total) auto
qed

theorem rank_without_rows_is_absent_witness:
  "gpu_kernels scenario_A 1 = []
   \<and> get_queue_length_time_series_for_rank scenario_A 1 = None
   \<and> 1 \<notin> fst ` set (get_queue_length_time_series scenario_A (Some [1, 0]))
   \<and> (0, scenario_A_series) \<in> set (get_queue_length_time_series scenario_A (Some [1, 0]))
   \<and> rows scenario_A_series \<noteq> []
   \<and> gpu_kernels scenario_C 1 = []
   \<and> get_memory_bw_time_series_for_rank scenario_utils scenario_C 1 = Inr None
   \<and> get_memory_bw_time_series scenario_utils scenario_C (Some [1, 0]) = Inr [(0, scenario_C_series)]
   \<and> rows scenario_C_series \<noteq> []
   \<and> effective_ranks (Some [1, 0]) = [1, 0]
   \<and> get_memory_bw_time_series_for_rank scenario_utils scenario_C 0 = Inr (Some scenario_C_series)"
proof -
  note inst = rank_without_rows_is_absent [where t = scenario_A and r = 1 and ranks = "Some [1, 0]"
      and k = 0 and df = scenario_A_series and t' = scenario_C and r' = 1 and u = scenario_utils
      and ranks' = "Some [1, 0]" and d = "[(0, scenario_C_series)]" and k' = 0
      and bdf = scenario_C_series]
  have a1: "get_queue_length_time_series_for_rank scenario_A 1 = None"
    using inst scenario_rank_1_empty(1) by blast
  have a2: "1 \<notin> fst ` set (get_queue_length_time_series scenario_A (Some [1, 0]))"
    using inst a1 by blast
  have a3: "(0, scenario_A_series) \<in> set (get_queue_length_time_series scenario_A (Some [1, 0]))"
    unfolding scenario_A_dict by simp
  have a4: "rows scenario_A_series \<noteq> []"
    using inst a3 by blast
  have c1: "get_memory_bw_time_series_for_rank scenario_utils scenario_C 1 = Inr None"
    using inst scenario_rank_1_empty(2) by blast
  have c2: "(0, scenario_C_series) \<in> set [(0::int, scenario_C_series)]"
    by simp
  have c3: "rows scenario_C_series \<noteq> []"
    using inst scenario_C_dict c2 by blast
  have c4: "effective_ranks (Some [1, 0]) = [1, 0]"
    by (simp add: effective_ranks_def)
  have c6: "get_memory_bw_time_series_for_rank scenario_utils scenario_C 0
      = Inr (Some scenario_C_series)"
    by (rule scenario_C_result)
  have e1: "gpu_kernels scenario_A 1 = []" and e2: "gpu_kernels scenario_C 1 = []"
    by (rule scenario_rank_1_empty)+
  have c5: "get_memory_bw_time_series scenario_utils scenario_C (Some [1, 0])
      = Inr [(0, scenario_C_series)]"
    by (rule scenario_C_dict)
  show ?thesis
    by (intro conjI; fact)
qed

subsection \<open>Runtime calls without a GPU event\<close>











subsection \<open>The deltas of one event\<close>

lemma shared_correlation_facts:
  "merged_df shared_correlation_trace 0 = shared_correlation_merged"
  "get_trace shared_correlation_trace 0
     = [host_ev 0 10 2 7 1, gpu_ev 1 15 3 0 5 7 0, gpu_ev 2 18 3 1 5 7 0]"
  "is_runtime_call shared_correlation_trace (host_ev 0 10 2 7 1)"
  "distinct (map index (get_trace shared_correlation_trace 0))"
     apply code_simp
    apply (simp add: shared_correlation_trace_def mk_trace_def)
   apply code_simp
  apply code_simp
  done

lemma length_filter_sort_values:
  "length (filter P (sort_values f xs)) = length (filter P xs)"
  by (simp add: sort_values_def filter_sort)

lemma length_concat_single:
  "distinct xs \<Longrightarrow>
     length (concat (map (\<lambda>r. if r = e then h r else []) xs))
     = (if e \<in> set xs then length (h e) else 0)"
  by (induction xs) auto

lemma length_filter_eq:
  "distinct xs \<Longrightarrow> length (filter (\<lambda>g. g = e) xs) = (if e \<in> set xs then 1 else 0)"
  by (induction xs) auto

lemma length_join_row:
  "length (join_row gs r)
   = max 1 (length (filter (\<lambda>g. correlation g = correlation r) gs))"
  by (cases "filter (\<lambda>g. correlation g = correlation r) gs") (simp_all add: join_row_def)

lemma same_index_same_event:
  assumes "distinct (map index evs)" "a \<in> set evs" "b \<in> set evs" "index a = index b"
  shows "a = b"
  using assms by (meson distinct_map inj_on_def)

lemma count_joined_rows:
  assumes d: "distinct (map index (get_trace t rank))" and e: "e \<in> set (get_trace t rank)"
  shows "length (filter (\<lambda>d. q_index d = index e \<and> queue d = 1) (joined_calls t rank))
       = (if is_runtime_call t e
          then max 1 (length (filter (\<lambda>g. correlation g = correlation e) (gpu_kernels t rank)))
          else 0)"
proof -
  let ?gs = "gpu_kernels t rank"
  let ?P = "\<lambda>d. q_index d = index e \<and> queue d = 1"
  have one: "filter ?P (join_row ?gs r) = (if r = e then join_row ?gs r else [])"
    if "r \<in> set (runtime_calls t rank)" for r
  proof -
    from that have r: "r \<in> set (get_trace t rank)" by (simp add: runtime_calls_def)
    have "r = e" if "index r = index e"
      using same_index_same_event [OF d r e that] .
    then show ?thesis
      by (auto simp: filter_empty_conv dest: join_row_fields intro!: filter_True)
  qed
  have "filter ?P (joined_calls t rank)
      = concat (map (\<lambda>r. filter ?P (join_row ?gs r)) (runtime_calls t rank))"
    by (simp add: joined_calls_def filter_concat comp_def)
  also have "\<dots> = concat (map (\<lambda>r. if r = e then join_row ?gs r else []) (runtime_calls t rank))"
    using one by (intro arg_cong [where f = concat] map_cong) simp_all
  finally have "length (filter ?P (joined_calls t rank))
      = length (concat (map (\<lambda>r. if r = e then join_row ?gs r else []) (runtime_calls t rank)))"
    by simp
  also have "\<dots> = (if e \<in> set (runtime_calls t rank) then length (join_row ?gs e) else 0)"
    using d by (intro length_concat_single) (simp add: runtime_calls_def distinct_map)
  finally show ?thesis
    using e by (simp add: runtime_calls_def length_join_row)
qed

lemma count_gpu_rows:
  assumes d: "distinct (map index (get_trace t rank))" and e: "e \<in> set (get_trace t rank)"
  shows "length (filter (\<lambda>d. q_index d = index e \<and> queue d = -1)
                   (map gpu_delta (gpu_kernels t rank)))
       = (if stream e \<noteq> -1 then 1 else 0)"
proof -
  let ?gs = "gpu_kernels t rank"
  have dg: "distinct ?gs"
    using d by (simp add: gpu_kernels_def distinct_map)
  have "filter (\<lambda>d. q_index d = index e \<and> queue d = -1) (map gpu_delta ?gs)
      = map gpu_delta (filter (\<lambda>g. index g = index e) ?gs)"
    by (simp add: filter_map comp_def gpu_delta_def)
  also have "filter (\<lambda>g. index g = index e) ?gs = filter (\<lambda>g. g = e) ?gs"
  proof (rule filter_cong [OF refl])
    fix g assume "g \<in> set ?gs"
    then have "g \<in> set (get_trace t rank)" by (simp add: gpu_kernels_def)
    from same_index_same_event [OF d this e] show "(index g = index e) = (g = e)"
      by auto
  qed
  also have "length (map gpu_delta (filter (\<lambda>g. g = e) ?gs)) = (if e \<in> set ?gs then 1 else 0)"
    using length_filter_eq [OF dg, of e] by simp
  finally show ?thesis
    using e by (simp add: gpu_kernels_def)
qed

lemma joined_rows_inherit:
  assumes "d \<in> set (joined_calls t rank)" and "q_stream d \<noteq> None"
  shows "\<exists>g \<in> set (gpu_kernels t rank).
           correlation g = q_correlation d \<and> q_stream d = Some (stream g)
           \<and> q_pid d = Some (pid g) \<and> q_tid d = Some (tid g)"
  using assms by (auto simp: joined_calls_def join_row_def Let_def split: if_splits)

lemma merged_rows_ts:
  assumes d: "distinct (map index (get_trace t rank))" and e: "e \<in> set (get_trace t rank)"
    and r: "x \<in> set (merged_df t rank)" and i: "q_index x = index e"
  shows "q_ts x = ts e"
proof -
  from r consider r' where "r' \<in> set (runtime_calls t rank)" "x \<in> set (join_row (gpu_kernels t rank) r')"
    | g where "g \<in> set (gpu_kernels t rank)" "x = gpu_delta g"
    by (auto simp: merged_df_def sort_values_def joined_calls_def)
  then show ?thesis
  proof cases
    case 1
    then have "r' \<in> set (get_trace t rank)" by (simp add: runtime_calls_def)
    moreover from 1 have f: "q_index x = index r'" "q_ts x = ts r'"
      by (auto dest: join_row_fields)
    ultimately have "r' = e"
      using same_index_same_event [OF d _ e] i by simp
    with f show ?thesis by simp
  next
    case 2
    then have "g \<in> set (get_trace t rank)" by (simp add: gpu_kernels_def)
    moreover from 2 have f: "q_index x = index g" "q_ts x = ts g"
      by (simp_all add: gpu_delta_def)
    ultimately have "g = e"
      using same_index_same_event [OF d _ e] i by simp
    with f show ?thesis by simp
  qed
qed

lemma joined_rows_unmatched:
  assumes "d \<in> set (joined_calls t rank)" and "q_stream d = None"
  shows "\<forall>g \<in> set (gpu_kernels t rank). correlation g \<noteq> q_correlation d"
  using assms
  by (auto simp: joined_calls_def join_row_def Let_def filter_empty_conv split: if_splits)

text \<open>
  C2, as stated, fails: a selected runtime call adds one row for each GPU event of its
  correlation id. The asynchronous memory copy of index 0, whose correlation id two GPU
  events have, adds two rows of +1, one on stream 0 and one on stream 1.
\<close>

theorem runtime_call_with_two_gpu_events:
  "get_trace shared_correlation_trace 0
     = [host_ev 0 10 2 7 1, gpu_ev 1 15 3 0 5 7 0, gpu_ev 2 18 3 1 5 7 0]
   \<and> is_runtime_call shared_correlation_trace (host_ev 0 10 2 7 1)
   \<and> merged_df shared_correlation_trace 0
     = [\<lparr>q_index = 0, q_ts = 10, q_correlation = 7, q_stream = Some 0, q_pid = Some 0,
         q_tid = Some 0, queue = 1\<rparr>,
        \<lparr>q_index = 0, q_ts = 10, q_correlation = 7, q_stream = Some 1, q_pid = Some 0,
         q_tid = Some 1, queue = 1\<rparr>,
        \<lparr>q_index = 1, q_ts = 15, q_correlation = 7, q_stream = Some 0, q_pid = Some 0,
         q_tid = Some 0, queue = -1\<rparr>,
        \<lparr>q_index = 2, q_ts = 18, q_correlation = 7, q_stream = Some 1, q_pid = Some 0,
         q_tid = Some 1, queue = -1\<rparr>]"
  using shared_correlation_facts(1,2,3) by (simp only: shared_correlation_merged_def simp_thms)

text \<open>
  C2, amended. In a trace whose events have distinct indices, a selected runtime call
  (one of the three names, \<open>index_correlation > 0\<close>) adds, at its own timestamp, one
  row of +1 for each GPU event of its correlation id, and a single row without a stream
  when there is none; any other event adds no row of +1. An event with a stream other
  than -1 adds exactly one row of -1 at its own timestamp. A row of +1 with a stream
  carries the stream, pid and tid of a GPU event of its correlation id; a row of +1
  without a stream has a correlation id that no GPU event has.
\<close>

theorem deltas_of_an_event:
  assumes "distinct (map index (get_trace t rank))" and "e \<in> set (get_trace t rank)"
  shows "length (filter (\<lambda>d. q_index d = index e \<and> queue d = 1) (merged_df t rank))
         = (if is_runtime_call t e
            then max 1 (length (filter (\<lambda>g. correlation g = correlation e) (gpu_kernels t rank)))
            else 0)
       \<and> length (filter (\<lambda>d. q_index d = index e \<and> queue d = -1) (merged_df t rank))
         = (if stream e \<noteq> -1 then 1 else 0)
       \<and> (\<forall>d \<in> set (merged_df t rank). q_index d = index e \<longrightarrow> q_ts d = ts e)
       \<and> (\<forall>d \<in> set (merged_df t rank). queue d = 1 \<longrightarrow> q_stream d \<noteq> None \<longrightarrow>
            (\<exists>g \<in> set (gpu_kernels t rank).
               correlation g = q_correlation d \<and> q_stream d = Some (stream g)
               \<and> q_pid d = Some (pid g) \<and> q_tid d = Some (tid g)))
       \<and> (\<forall>d \<in> set (merged_df t rank). queue d = 1 \<longrightarrow> q_stream d = None \<longrightarrow>
            (\<forall>g \<in> set (gpu_kernels t rank). correlation g \<noteq> q_correlation d))"
proof (intro conjI ballI impI)
  let ?plus = "\<lambda>d. q_index d = index e \<and> queue d = 1"
  let ?minus = "\<lambda>d. q_index d = index e \<and> queue d = -1"
  have no_plus: "filter ?plus (map gpu_delta (gpu_kernels t rank)) = []"
    by (simp add: filter_empty_conv gpu_delta_def)
  have no_minus: "filter ?minus (joined_calls t rank) = []"
    by (auto simp: filter_empty_conv joined_calls_def dest: join_row_fields)
  have "length (filter ?plus (merged_df t rank)) = length (filter ?plus (joined_calls t rank))"
    by (simp add: merged_df_def length_filter_sort_values no_plus)
  then show "length (filter ?plus (merged_df t rank))
         = (if is_runtime_call t e
            then max 1 (length (filter (\<lambda>g. correlation g = correlation e) (gpu_kernels t rank)))
            else 0)"
    by (simp only: count_joined_rows [OF assms])
  have "length (filter ?minus (merged_df t rank))
      = length (filter ?minus (map gpu_delta (gpu_kernels t rank)))"
    by (simp add: merged_df_def length_filter_sort_values no_minus)
  then show "length (filter ?minus (merged_df t rank)) = (if stream e \<noteq> -1 then 1 else 0)"
    by (simp only: count_gpu_rows [OF assms])
next
  fix d assume "d \<in> set (merged_df t rank)" "q_index d = index e"
  then show "q_ts d = ts e"
    by (rule merged_rows_ts [OF assms])
next
  fix d assume "d \<in> set (merged_df t rank)" "queue d = 1"
  then have j: "d \<in> set (joined_calls t rank)"
    by (auto simp: merged_df_def sort_values_def gpu_delta_def)
  {
    assume "q_stream d \<noteq> None"
    with j show "\<exists>g \<in> set (gpu_kernels t rank).
               correlation g = q_correlation d \<and> q_stream d = Some (stream g)
               \<and> q_pid d = Some (pid g) \<and> q_tid d = Some (tid g)"
      by (rule joined_rows_inherit)
  }
  {
    fix g assume "q_stream d = None" "g \<in> set (gpu_kernels t rank)"
    with joined_rows_unmatched [OF j] show "correlation g \<noteq> q_correlation d"
      by blast
  }
qed

theorem deltas_of_an_event_witness:
  "distinct (map index (get_trace shared_correlation_trace 0))
   \<and> host_ev 0 10 2 7 1 \<in> set (get_trace shared_correlation_trace 0)
   \<and> length (filter (\<lambda>d. q_index d = index (host_ev 0 10 2 7 1) \<and> queue d = 1)
        (merged_df shared_correlation_trace 0)) = 2
   \<and> length (filter (\<lambda>d. q_index d = index (host_ev 0 10 2 7 1) \<and> queue d = -1)
        (merged_df shared_correlation_trace 0)) = 0"
proof -
  have m: "host_ev 0 10 2 7 1 \<in> set (get_trace shared_correlation_trace 0)"
    by (simp add: shared_correlation_facts(2))
  have two: "max 1 (length (filter (\<lambda>g. correlation g = correlation (host_ev 0 10 2 7 1))
      (gpu_kernels shared_correlation_trace 0))) = 2"
    by code_simp
  have host: "stream (host_ev 0 10 2 7 1) = -1"
    by (simp add: host_ev_def)
  note inst = deltas_of_an_event [OF shared_correlation_facts(4) m]
  from inst have "length (filter (\<lambda>d. q_index d = index (host_ev 0 10 2 7 1) \<and> queue d = 1)
        (merged_df shared_correlation_trace 0)) = 2"
    by (simp only: shared_correlation_facts(3) two if_True)
  moreover from inst have "length (filter (\<lambda>d. q_index d = index (host_ev 0 10 2 7 1) \<and> queue d = -1)
        (merged_df shared_correlation_trace 0)) = 0"
    by (simp add: host)
  ultimately show ?thesis
    using shared_correlation_facts(4) m by (intro conjI)
qed

subsection \<open>The rows the bandwidth builder keeps\<close>


lemma apply_rows_Inl:
  "apply_rows f xs = Inl e \<Longrightarrow> \<exists>x \<in> set xs. f x = Inl e"
  by (induction xs) (auto split: sum.splits)

lemma apply_rows_total:
  "(\<And>x. x \<in> set xs \<Longrightarrow> \<exists>y. f x = Inr y) \<Longrightarrow> \<exists>ys. apply_rows f xs = Inr ys"
proof (induction xs)
  case Nil
  then show ?case by simp
next
  case (Cons x xs)
  then obtain y ys where "f x = Inr y" "apply_rows f xs = Inr ys"
    by (metis list.set_intros(1) list.set_intros(2))
  then show ?case by simp
qed



subsection \<open>The deltas of the bandwidth builder\<close>














subsection \<open>The summary\<close>








subsection \<open>Start and end of one transfer\<close>







subsection \<open>No negative bandwidth\<close>









subsection \<open>Durations of zero\<close>











end
